theory Spec2Isabelle
  imports Main "HOL-Library.Word"
begin

unbundle bit_operations_syntax

section \<open>Data model of the data acquisition system\<close>

text \<open>
  The program is one Python class, \<open>DataAcquisitionSystem\<close>, driving an ADC128S022 and a
  CD74HC4067 multiplexer on SPI0, an MCP2515 CAN controller on SPI1 and a log file on an
  SD card. Python integers are \<open>int\<close>; the contents of a \<open>bytes\<close> or \<open>bytearray\<close> object
  are a list of 8-bit words.
\<close>

type_synonym byte = "8 word"

text \<open>The exceptions the modelled code can raise.\<close>

datatype error = IndexError | ValueError | StructError | OSError

text \<open>The digital outputs the class drives (\<open>self.sd_cs\<close> ... \<open>self.mux_s3\<close>).\<close>

datatype pin = SD_CS | ADC_CS | CAN_CS | MUX_CS | MUX_S0 | MUX_S1 | MUX_S2 | MUX_S3

text \<open>
  What the program does to the outside world, in the order it does it. \<open>Sleep\<close> carries
  the argument of \<open>time.sleep\<close> in microseconds; \<open>Spi0Configure\<close> and \<open>Spi1Configure\<close>
  carry baudrate, phase and polarity; \<open>Spi0WriteReadinto\<close> and \<open>Spi1Write\<close> carry the
  bytes clocked out; \<open>PwmOut\<close> carries frequency and duty cycle.
\<close>

datatype event =
    PinWrite pin bool
  | Sleep nat
  | Spi0Configure nat nat nat
  | Spi0WriteReadinto "byte list"
  | Spi1Configure nat nat nat
  | Spi1Write "byte list"
  | PwmOut nat nat
  | SdCardInit
  | Mount
  | Listdir
  | Print string

text \<open>
  The state of the object and of the peripherals it owns: the reading vector
  \<open>self.adc_data\<close>, the level of every output pin, the lock of each SPI bus, the trace of
  events so far and the files of the volume mounted at \<open>/sd\<close> (path to content).
\<close>

record das =
  adc_data :: "int list"
  pins :: "pin \<Rightarrow> bool"
  spi0_locked :: bool
  spi1_locked :: bool
  trace :: "event list"
  files :: "string \<rightharpoonup> string"

text \<open>
  What the program cannot decide: the two bytes the ADC clocks back for a transfer (it may
  depend on the pin levels and on everything that happened before), whether the directory
  listing, the mount and the opening of a file for writing succeed, and the text that
  formatting \<open>time.monotonic()\<close> gives.
\<close>

record env =
  adc_reply :: "(pin \<Rightarrow> bool) \<Rightarrow> event list \<Rightarrow> byte list \<Rightarrow> byte \<times> byte"
  listdir_ok :: bool
  mount_ok :: bool
  writable :: bool
  monotonic_text :: string

section \<open>Control flow: state, exceptions, loops that may not return\<close>

text \<open>
  A method takes the state and returns, if it returns at all, either the exception it
  raised or its value, with the state it left behind. \<open>None\<close> is a call that never returns.
\<close>

type_synonym 'a prog = "das \<Rightarrow> ((error + 'a) \<times> das) option"

definition ret :: "'a \<Rightarrow> 'a prog" where
  "ret x s = Some (Inr x, s)"

definition raise :: "error \<Rightarrow> 'a prog" where
  "raise e s = Some (Inl e, s)"

text \<open>Sequencing: an exception of the first part skips the second.\<close>

definition bind :: "'a prog \<Rightarrow> ('a \<Rightarrow> 'b prog) \<Rightarrow> 'b prog" where
  "bind m f s =
     (case m s of
        None \<Rightarrow> None
      | Some (r, s') \<Rightarrow> (case r of Inl e \<Rightarrow> Some (Inl e, s') | Inr x \<Rightarrow> f x s'))"

text \<open>A block of statements run one after the other.\<close>

fun block :: "unit prog list \<Rightarrow> unit prog" where
  "block [] = ret ()"
| "block (m # ms) = bind m (\<lambda>_. block ms)"

text \<open>\<open>try: m finally: fin\<close>: \<open>fin\<close> runs on both exits, and the outcome of \<open>m\<close> stands
  unless \<open>fin\<close> itself raises.\<close>

definition try_finally :: "'a prog \<Rightarrow> unit prog \<Rightarrow> 'a prog" where
  "try_finally m fin s =
     (case m s of
        None \<Rightarrow> None
      | Some (r, s') \<Rightarrow>
          (case fin s' of
             None \<Rightarrow> None
           | Some (r', s'') \<Rightarrow> (case r' of Inl e \<Rightarrow> Some (Inl e, s'') | Inr _ \<Rightarrow> Some (r, s''))))"

text \<open>\<open>try: m except C: h\<close>, where \<open>catches\<close> says which exceptions the class \<open>C\<close> covers.\<close>

definition try_except :: "'a prog \<Rightarrow> (error \<Rightarrow> bool) \<Rightarrow> 'a prog \<Rightarrow> 'a prog" where
  "try_except m catches h s =
     (case m s of
        None \<Rightarrow> None
      | Some (r, s') \<Rightarrow>
          (case r of
             Inl e \<Rightarrow> if catches e then h s' else Some (Inl e, s')
           | Inr x \<Rightarrow> Some (Inr x, s')))"

text \<open>\<open>for i in xs: body(i)\<close>.\<close>

fun for_loop :: "'i list \<Rightarrow> ('i \<Rightarrow> unit prog) \<Rightarrow> unit prog" where
  "for_loop [] body = ret ()"
| "for_loop (i # is) body = bind (body i) (\<lambda>_. for_loop is body)"

text \<open>\<open>while not cond(): pass\<close>. The loop returns only once \<open>cond\<close> answers \<open>True\<close>.\<close>

partial_function (option) while_not :: "(das \<Rightarrow> bool \<times> das) \<Rightarrow> das \<Rightarrow> das option" where
  "while_not cond s = (case cond s of (ok, s') \<Rightarrow> if ok then Some s' else while_not cond s')"

definition spin :: "(das \<Rightarrow> bool \<times> das) \<Rightarrow> unit prog" where
  "spin cond s = (case while_not cond s of None \<Rightarrow> None | Some s' \<Rightarrow> Some (Inr (), s'))"

section \<open>Primitives of the runtime\<close>

definition emit :: "event \<Rightarrow> unit prog" where
  "emit e s = Some (Inr (), s\<lparr>trace := trace s @ [e]\<rparr>)"

text \<open>\<open>pin.value = b\<close>.\<close>

definition pin_write :: "pin \<Rightarrow> bool \<Rightarrow> unit prog" where
  "pin_write p b s = Some (Inr (), s\<lparr>pins := (pins s)(p := b), trace := trace s @ [PinWrite p b]\<rparr>)"

text \<open>\<open>time.sleep\<close>, the argument in microseconds.\<close>

definition sleep :: "nat \<Rightarrow> unit prog" where
  "sleep us = emit (Sleep us)"

text \<open>\<open>busio.SPI.try_lock\<close> and \<open>unlock\<close>: the lock is taken only when it is free.\<close>

definition spi0_try_lock :: "das \<Rightarrow> bool \<times> das" where
  "spi0_try_lock s = (if spi0_locked s then (False, s) else (True, s\<lparr>spi0_locked := True\<rparr>))"

definition spi0_unlock :: "unit prog" where
  "spi0_unlock s = Some (Inr (), s\<lparr>spi0_locked := False\<rparr>)"

definition spi1_try_lock :: "das \<Rightarrow> bool \<times> das" where
  "spi1_try_lock s = (if spi1_locked s then (False, s) else (True, s\<lparr>spi1_locked := True\<rparr>))"

definition spi1_unlock :: "unit prog" where
  "spi1_unlock s = Some (Inr (), s\<lparr>spi1_locked := False\<rparr>)"

text \<open>\<open>bytes([...])\<close> and \<open>bytearray([...])\<close> of integers: every item must be in
  \<open>range(0, 256)\<close>, otherwise \<open>ValueError\<close>.\<close>

definition to_bytes :: "int list \<Rightarrow> error + byte list" where
  "to_bytes xs = (if \<forall>x \<in> set xs. 0 \<le> x \<and> x < 256 then Inr (map word_of_int xs) else Inl ValueError)"

definition lift :: "error + 'a \<Rightarrow> 'a prog" where
  "lift r s = Some (r, s)"

text \<open>\<open>self.spi0.write_readinto(out, result)\<close> with a two-byte \<open>result\<close>: the bytes read
  are the environment's answer to what was written, given the pin levels and the history.\<close>

definition spi0_write_readinto :: "env \<Rightarrow> byte list \<Rightarrow> (byte \<times> byte) prog" where
  "spi0_write_readinto ev out s =
     Some (Inr (adc_reply ev (pins s) (trace s) out), s\<lparr>trace := trace s @ [Spi0WriteReadinto out]\<rparr>)"

definition spi1_write :: "byte list \<Rightarrow> unit prog" where
  "spi1_write out = emit (Spi1Write out)"

text \<open>\<open>xs[i] = v\<close>: \<open>IndexError\<close> out of range.\<close>

definition list_setitem :: "'a list \<Rightarrow> nat \<Rightarrow> 'a \<Rightarrow> error + 'a list" where
  "list_setitem xs i v = (if i < length xs then Inr (xs[i := v]) else Inl IndexError)"

definition set_adc_data :: "nat \<Rightarrow> int \<Rightarrow> unit prog" where
  "set_adc_data i v s =
     (case list_setitem (adc_data s) i v of
        Inl e \<Rightarrow> Some (Inl e, s)
      | Inr xs \<Rightarrow> Some (Inr (), s\<lparr>adc_data := xs\<rparr>))"

section \<open>Analog sampler\<close>

text \<open>\<open>set_mux_channel\<close>: enable the multiplexer, put the four low bits of \<open>channel\<close> on
  the select lines, wait 5 microseconds.\<close>

definition set_mux_channel :: "int \<Rightarrow> unit prog" where
  "set_mux_channel channel =
     block [
       pin_write MUX_CS False,
       pin_write MUX_S0 (channel AND 0x01 \<noteq> 0),
       pin_write MUX_S1 (drop_bit 1 channel AND 0x01 \<noteq> 0),
       pin_write MUX_S2 (drop_bit 2 channel AND 0x01 \<noteq> 0),
       pin_write MUX_S3 (drop_bit 3 channel AND 0x01 \<noteq> 0),
       sleep 5]"

text \<open>The conversion of the two bytes read into the returned value
  (\<open>((result[0] & 0x0F) << 8) | result[1]\<close>).\<close>

definition adc_value :: "byte \<times> byte \<Rightarrow> int" where
  "adc_value result = push_bit 8 (uint (fst result) AND 0x0F) OR uint (snd result)"

text \<open>\<open>read_adc_channel\<close>: build the command byte, select the ADC, take the bus, configure
  it, exchange two bytes, release the bus (also when the exchange raises), deselect, decode.\<close>

definition adc_command :: "int \<Rightarrow> int" where
  "adc_command channel = 0x80 OR push_bit 4 (channel AND 0x07)"

definition read_adc_channel :: "env \<Rightarrow> int \<Rightarrow> int prog" where
  "read_adc_channel ev channel =
     bind (pin_write ADC_CS False) (\<lambda>_.
     bind (sleep 1) (\<lambda>_.
     bind (spin spi0_try_lock) (\<lambda>_.
     bind (try_finally
             (bind (emit (Spi0Configure 2000000 0 0)) (\<lambda>_.
              bind (lift (to_bytes [adc_command channel, 0x00])) (\<lambda>out.
              spi0_write_readinto ev out)))
             spi0_unlock) (\<lambda>result.
     bind (pin_write ADC_CS True) (\<lambda>_.
     ret (adc_value result))))))"

text \<open>\<open>sample_all_channels\<close>: the direct loop over \<open>range(1, 8)\<close>, then the multiplexed
  loop over \<open>range(16)\<close>.\<close>

definition sample_all_channels :: "env \<Rightarrow> unit prog" where
  "sample_all_channels ev =
     block [
       for_loop [1..<8] (\<lambda>i.
         bind (read_adc_channel ev (int i)) (\<lambda>v. set_adc_data i v)),
       for_loop [0..<16] (\<lambda>i.
         block [
           set_mux_channel (int i),
           sleep 50,
           bind (read_adc_channel ev 0) (\<lambda>v. set_adc_data (i + 7) v)])]"

section \<open>CAN link driver\<close>

text \<open>\<open>init_can_controller\<close>: the reset burst, the 10 ms wait, then four bursts of three
  bytes each under one acquisition of the bus.\<close>

definition init_can_controller :: "unit prog" where
  "init_can_controller =
     block [
       pin_write CAN_CS False,
       spin spi1_try_lock,
       try_finally
         (block [
            emit (Spi1Configure 10000000 0 0),
            spi1_write [0xC0]])
         spi1_unlock,
       pin_write CAN_CS True,
       sleep 10000,
       spin spi1_try_lock,
       try_finally
         (block [
            emit (Spi1Configure 10000000 0 0),
            pin_write CAN_CS False,
            spi1_write [0x02, 0x0F, 0x80],
            pin_write CAN_CS True,
            sleep 1000,
            pin_write CAN_CS False,
            spi1_write [0x02, 0x2A, 0x04],
            pin_write CAN_CS True,
            pin_write CAN_CS False,
            spi1_write [0x02, 0x28, 0x00],
            pin_write CAN_CS True,
            pin_write CAN_CS False,
            spi1_write [0x02, 0x0F, 0x00],
            pin_write CAN_CS True])
         spi1_unlock]"

text \<open>\<open>send_can_message\<close>: three chip-select bursts under one acquisition of the bus. The
  header of the second burst is built by \<open>bytearray([...])\<close>, which raises \<open>ValueError\<close> on
  an item outside \<open>range(0, 256)\<close>; the bus is released on every exit.\<close>

definition send_can_message :: "int \<Rightarrow> byte list \<Rightarrow> unit prog" where
  "send_can_message ident data =
     bind (spin spi1_try_lock) (\<lambda>_.
     try_finally
       (block [
          pin_write CAN_CS False,
          spi1_write [0x40, 0x08],
          pin_write CAN_CS True,
          pin_write CAN_CS False,
          bind (lift (to_bytes [drop_bit 3 ident, push_bit 5 (ident AND 0x07), 0, 0, int (length data)]))
            (\<lambda>buffer. spi1_write (buffer @ data)),
          pin_write CAN_CS True,
          pin_write CAN_CS False,
          spi1_write [0x81],
          pin_write CAN_CS True])
       spi1_unlock)"

text \<open>\<open>struct.pack(">H", value)\<close>: two bytes, the high one first; \<open>struct.error\<close> unless
  \<open>0 <= value <= 65535\<close>.\<close>

definition struct_pack_H :: "int \<Rightarrow> error + byte list" where
  "struct_pack_H v =
     (if 0 \<le> v \<and> v \<le> 65535 then Inr [word_of_int (drop_bit 8 v), word_of_int (v AND 0xFF)]
      else Inl StructError)"

text \<open>The packing loop of \<open>send_adc_data_via_can\<close>, \<open>all_bytes\<close> being the accumulator.\<close>

fun pack_loop :: "int list \<Rightarrow> byte list \<Rightarrow> error + byte list" where
  "pack_loop [] all_bytes = Inr all_bytes"
| "pack_loop (v # vs) all_bytes =
     (case struct_pack_H v of Inl e \<Rightarrow> Inl e | Inr b \<Rightarrow> pack_loop vs (all_bytes @ b))"

text \<open>\<open>range(start, stop, step)\<close> for a positive step, and the slice \<open>xs[i:j]\<close> for
  indices that are not negative.\<close>

definition range_step :: "nat \<Rightarrow> nat \<Rightarrow> nat \<Rightarrow> nat list" where
  "range_step start stop step = map (\<lambda>k. start + k * step) [0..<(stop - start + step - 1) div step]"

definition slice :: "'a list \<Rightarrow> nat \<Rightarrow> nat \<Rightarrow> 'a list" where
  "slice xs i j = drop i (take j xs)"

definition get_adc_data :: "int list prog" where
  "get_adc_data s = Some (Inr (adc_data s), s)"

definition send_adc_data_via_can :: "unit prog" where
  "send_adc_data_via_can =
     bind get_adc_data (\<lambda>values.
     bind (lift (pack_loop values [])) (\<lambda>all_bytes.
     for_loop (range_step 0 (length all_bytes) 8) (\<lambda>i.
       block [
         send_can_message (0x100 + int (i div 8))
           (slice all_bytes i (i + min 8 (length all_bytes - i))),
         sleep 5000])))"

section \<open>Logging to the SD card\<close>

text \<open>\<open>os.listdir\<close> and \<open>storage.mount\<close> succeed or raise as the environment decides.\<close>

definition os_listdir :: "env \<Rightarrow> unit prog" where
  "os_listdir ev = bind (emit Listdir) (\<lambda>_. if listdir_ok ev then ret () else raise OSError)"

definition storage_mount :: "env \<Rightarrow> unit prog" where
  "storage_mount ev = bind (emit Mount) (\<lambda>_. if mount_ok ev then ret () else raise OSError)"

text \<open>\<open>os.stat\<close> raises \<open>OSError\<close> when the path names no file.\<close>

definition os_stat :: "string \<Rightarrow> unit prog" where
  "os_stat path s = (case files s path of None \<Rightarrow> Some (Inl OSError, s) | Some _ \<Rightarrow> Some (Inr (), s))"

text \<open>\<open>open(path, 'w')\<close> creates the file or empties it; \<open>open(path, 'a')\<close> creates it when
  it is missing and keeps its content otherwise; both raise \<open>OSError\<close> when the volume cannot be
  written. \<open>f.write(text)\<close> puts \<open>text\<close> at the end of the file.\<close>

definition open_w :: "env \<Rightarrow> string \<Rightarrow> unit prog" where
  "open_w ev path s =
     (if writable ev then Some (Inr (), s\<lparr>files := (files s)(path \<mapsto> [])\<rparr>) else Some (Inl OSError, s))"

definition open_a :: "env \<Rightarrow> string \<Rightarrow> unit prog" where
  "open_a ev path s =
     (if writable ev then
        (case files s path of
           None \<Rightarrow> Some (Inr (), s\<lparr>files := (files s)(path \<mapsto> [])\<rparr>)
         | Some _ \<Rightarrow> Some (Inr (), s))
      else Some (Inl OSError, s))"

definition file_write :: "string \<Rightarrow> string \<Rightarrow> unit prog" where
  "file_write path text s =
     (case files s path of
        None \<Rightarrow> Some (Inl OSError, s)
      | Some content \<Rightarrow> Some (Inr (), s\<lparr>files := (files s)(path \<mapsto> content @ text)\<rparr>))"

text \<open>\<open>str\<close> of an integer, as an f-string formats it.\<close>

fun str_nat :: "nat \<Rightarrow> string" where
  "str_nat n = (if n < 10 then [''0123456789'' ! n] else str_nat (n div 10) @ [''0123456789'' ! (n mod 10)])"

declare str_nat.simps [simp del]

definition str_int :: "int \<Rightarrow> string" where
  "str_int i = (if i < 0 then CHR ''-'' # str_nat (nat (- i)) else str_nat (nat i))"

text \<open>The f-strings \<open>f",adc{i}"\<close> of the header and \<open>f",{value}"\<close> of a record.\<close>

definition header_field :: "nat \<Rightarrow> string" where
  "header_field i = '',adc'' @ str_nat i"

definition value_field :: "int \<Rightarrow> string" where
  "value_field v = '','' @ str_int v"

definition is_OSError :: "error \<Rightarrow> bool" where
  "is_OSError e = (e = OSError)"

definition any_exception :: "error \<Rightarrow> bool" where
  "any_exception e = True"

definition log_path :: string where
  "log_path = ''/sd/adc_log.csv''"

text \<open>
  \<open>log_data_to_sd\<close>, in three parts. \<open>check_volume\<close> is the inner \<open>try\<close> around
  \<open>os.listdir\<close>: it answers whether the method goes on (\<open>True\<close>) or takes the early
  \<open>return\<close> of the failed remount (\<open>False\<close>). \<open>write_log\<close> is the rest of the outer
  \<open>try\<close>: the test for the file, the header when the file is missing, the record. The
  text of a caught exception, which the source appends to two of its messages, is not
  modelled.
\<close>

definition check_volume :: "env \<Rightarrow> bool prog" where
  "check_volume ev =
     try_except
       (bind (os_listdir ev) (\<lambda>_. ret True))
       is_OSError
       (bind (emit (Print ''SD card directory issue - remounting'')) (\<lambda>_.
        try_except
          (bind (storage_mount ev) (\<lambda>_. ret True))
          any_exception
          (bind (emit (Print ''Remount failed: '')) (\<lambda>_. ret False))))"

definition write_log :: "env \<Rightarrow> unit prog" where
  "write_log ev =
     bind (try_except (bind (os_stat log_path) (\<lambda>_. ret True)) is_OSError (ret False))
       (\<lambda>file_exists.
     block [
       if \<not> file_exists then
         block [
           open_w ev log_path,
           file_write log_path ''timestamp'',
           for_loop [0..<23] (\<lambda>i. file_write log_path (header_field i)),
           file_write log_path [CHR 0x0A]]
       else ret (),
       open_a ev log_path,
       file_write log_path (monotonic_text ev),
       bind get_adc_data (\<lambda>values.
         for_loop values (\<lambda>v. file_write log_path (value_field v))),
       file_write log_path [CHR 0x0A]])"

definition log_data_to_sd :: "env \<Rightarrow> unit prog" where
  "log_data_to_sd ev =
     try_except
       (bind (check_volume ev) (\<lambda>proceed. if \<not> proceed then ret () else write_log ev))
       any_exception
       (emit (Print ''Error logging to SD card: ''))"

section \<open>Construction\<close>

text \<open>
  \<open>__init__\<close>: the four chip selects are deselected, the 8 MHz clock is started, the SD
  card is mounted (a failure is printed and construction goes on), the CAN controller is
  initialised and the reading vector is set to 23 zeros. The two time stamps, which only
  the main loop \<open>run\<close> reads, are left out, as is \<open>run\<close> itself, which no property
  below is about.
\<close>

definition init :: "env \<Rightarrow> unit prog" where
  "init ev =
     block [
       pin_write SD_CS True,
       pin_write ADC_CS True,
       pin_write CAN_CS True,
       pin_write MUX_CS True,
       emit (PwmOut 8000000 32768),
       try_except
         (block [
            emit SdCardInit,
            storage_mount ev,
            emit (Print ''SD card mounted successfully'')])
         any_exception
         (emit (Print ''Error mounting SD card: '')),
       init_can_controller,
       (\<lambda>s. Some (Inr (), s\<lparr>adc_data := replicate 23 0\<rparr>))]"

text \<open>The board before \<open>__init__\<close> runs: no reading vector yet, every output low, both buses
  free, nothing done, an empty volume.\<close>

definition power_on :: das where
  "power_on = \<lparr>adc_data = [], pins = (\<lambda>_. False), spi0_locked = False, spi1_locked = False,
     trace = [], files = Map.empty\<rparr>"

section \<open>Vocabulary of the properties\<close>

text \<open>The events of one call of \<open>read_adc_channel\<close> and of one call of
  \<open>set_mux_channel\<close>, and those of a whole sampling cycle.\<close>

definition adc_read_events :: "int \<Rightarrow> event list" where
  "adc_read_events channel =
     [PinWrite ADC_CS False, Sleep 1, Spi0Configure 2000000 0 0,
      Spi0WriteReadinto [word_of_int (adc_command channel), 0], PinWrite ADC_CS True]"

definition mux_select_events :: "int \<Rightarrow> event list" where
  "mux_select_events channel =
     [PinWrite MUX_CS False,
      PinWrite MUX_S0 (channel AND 0x01 \<noteq> 0),
      PinWrite MUX_S1 (drop_bit 1 channel AND 0x01 \<noteq> 0),
      PinWrite MUX_S2 (drop_bit 2 channel AND 0x01 \<noteq> 0),
      PinWrite MUX_S3 (drop_bit 3 channel AND 0x01 \<noteq> 0),
      Sleep 5]"

definition sample_events :: "event list" where
  "sample_events =
     concat (map (\<lambda>i. adc_read_events (int i)) [1..<8]) @
     concat (map (\<lambda>i. mux_select_events (int i) @ [Sleep 50] @ adc_read_events 0) [0..<16])"

text \<open>The events that the properties of sampling are about: transfers with the ADC and writes to the
  four select lines of the multiplexer.\<close>

fun adc_or_select :: "event \<Rightarrow> bool" where
  "adc_or_select (Spi0WriteReadinto out) = True"
| "adc_or_select (PinWrite p b) = (p \<in> {MUX_S0, MUX_S1, MUX_S2, MUX_S3})"
| "adc_or_select e = False"

text \<open>The first byte of every transfer with the ADC, in the order of the transfers.\<close>

fun adc_commands :: "event list \<Rightarrow> byte list" where
  "adc_commands [] = []"
| "adc_commands (Spi0WriteReadinto out # es) = take 1 out @ adc_commands es"
| "adc_commands (e # es) = adc_commands es"

text \<open>The bytes an ADC transfer of \<open>read_adc_channel\<close> reads back when it starts in state \<open>s\<close>.\<close>

definition reply_in :: "env \<Rightarrow> int \<Rightarrow> das \<Rightarrow> byte \<times> byte" where
  "reply_in ev ch s = adc_reply ev ((pins s)(ADC_CS := False))
      (trace s @ [PinWrite ADC_CS False, Sleep 1, Spi0Configure 2000000 0 0])
      [word_of_int (adc_command ch), 0]"

text \<open>The invariant of the two sampling loops.\<close>

definition sampler_inv :: "int \<Rightarrow> das \<Rightarrow> bool" where
  "sampler_inv a0 s \<longleftrightarrow> \<not> spi0_locked s \<and> length (adc_data s) = 23 \<and> adc_data s ! 0 = a0"

text \<open>
  The object as \<open>__init__\<close> leaves it (chip selects high, 23 zeros, both buses free), with
  an empty history and an empty volume.
\<close>

definition idle :: das where
  "idle = \<lparr>adc_data = replicate 23 0, pins = (\<lambda>p. p \<in> {SD_CS, ADC_CS, CAN_CS, MUX_CS}),
     spi0_locked = False, spi1_locked = False, trace = [], files = Map.empty\<rparr>"

text \<open>
  A bench environment: an ideal ADC that converts input \<open>k\<close> (1 to 7) to \<open>100 * k\<close> and
  input 0 to \<open>1000 + m\<close>, where \<open>m\<close> is the sub-channel the four select lines name; the
  card lists, mounts and can be written.
\<close>

definition mux_selected :: "(pin \<Rightarrow> bool) \<Rightarrow> nat" where
  "mux_selected p = (if p MUX_S0 then 1 else 0) + (if p MUX_S1 then 2 else 0) +
     (if p MUX_S2 then 4 else 0) + (if p MUX_S3 then 8 else 0)"

definition bench_reply :: "(pin \<Rightarrow> bool) \<Rightarrow> event list \<Rightarrow> byte list \<Rightarrow> byte \<times> byte" where
  "bench_reply p tr out =
     (case out of
        [] \<Rightarrow> (0, 0)
      | c # _ \<Rightarrow>
          (let k = unat (drop_bit 4 c AND 0x07);
               v = (if k = 0 then 1000 + mux_selected p else 100 * k)
           in (of_nat (v div 256), of_nat (v mod 256))))"

definition bench :: env where
  "bench = \<lparr>adc_reply = bench_reply, listdir_ok = True, mount_ok = True, writable = True,
     monotonic_text = ''12.5''\<rparr>"

text \<open>
  The commands and the reading vector as the specification words them. Logical channels 0
  to 6 take command \<open>0x80 | (channel << 4)\<close> and channels 7 to 22 take command \<open>0x80\<close>;
  entries 0 to 6 hold the conversions of ADC inputs 1 to 7 and entries 7 to 22 those of
  input 0 with sub-channels 0 to 15, here on the bench.
\<close>

definition spec_commands :: "byte list" where
  "spec_commands =
     map (\<lambda>channel. word_of_int (0x80 OR push_bit 4 (int channel))) [0..<7] @
     map (\<lambda>channel. 0x80) [7..<23]"

definition spec_frame_on_bench :: "int list" where
  "spec_frame_on_bench = map (\<lambda>k. 100 * int k) [1..<8] @ map (\<lambda>m. 1000 + int m) [0..<16]"

text \<open>The bursts written to the CAN controller, in order.\<close>

fun spi1_writes :: "event list \<Rightarrow> byte list list" where
  "spi1_writes [] = []"
| "spi1_writes (Spi1Write out # es) = out # spi1_writes es"
| "spi1_writes (e # es) = spi1_writes es"

text \<open>The events of one call of \<open>send_can_message\<close> that raises nothing: three bursts, each
  between a falling and a rising edge of the chip select.\<close>

definition can_frame_events :: "int \<Rightarrow> byte list \<Rightarrow> event list" where
  "can_frame_events ident data =
     [PinWrite CAN_CS False, Spi1Write [0x40, 0x08], PinWrite CAN_CS True,
      PinWrite CAN_CS False,
      Spi1Write (map word_of_int [drop_bit 3 ident, push_bit 5 (ident AND 0x07), 0, 0, int (length data)] @ data),
      PinWrite CAN_CS True,
      PinWrite CAN_CS False, Spi1Write [0x81], PinWrite CAN_CS True]"

text \<open>The calls of \<open>send_can_message\<close> whose header fits into bytes.\<close>

definition frame_ok :: "int \<Rightarrow> byte list \<Rightarrow> bool" where
  "frame_ok ident data \<longleftrightarrow> 0 \<le> ident \<and> ident \<le> 0x7FF \<and> length data \<le> 255"

text \<open>
  The register writes one burst makes, as the specification words the write instruction of
  the controller: the write opcode \<open>0x02\<close>, a register address, then one value for that
  register and, in a multi-byte write, further values for the addresses that follow.
\<close>

fun register_writes :: "byte list \<Rightarrow> (byte \<times> byte) list" where
  "register_writes (opcode # address # values) =
     (if opcode = 0x02 then map (\<lambda>k. (address + of_nat k, values ! k)) [0..<length values] else [])"
| "register_writes burst = []"

text \<open>A reading as two bytes, the high byte first.\<close>

definition be16 :: "int \<Rightarrow> byte list" where
  "be16 v = [word_of_int (drop_bit 8 v), word_of_int (v AND 0xFF)]"

text \<open>The header row and a record of the log file.\<close>

definition csv_header :: string where
  "csv_header = ''timestamp,adc0,adc1,adc2,adc3,adc4,adc5,adc6,adc7,adc8,adc9,adc10,adc11,adc12,adc13,adc14,adc15,adc16,adc17,adc18,adc19,adc20,adc21,adc22'' @ [CHR 0x0A]"

definition csv_row :: "env \<Rightarrow> int list \<Rightarrow> string" where
  "csv_row ev values = monotonic_text ev @ concat (map value_field values) @ [CHR 0x0A]"

section \<open>Properties\<close>

subsection \<open>Helper facts on the sampler\<close>

lemma adc_value_range: "0 \<le> adc_value r \<and> adc_value r \<le> 4095"
proof -
  have a: "uint (fst r) AND 0x0F \<le> (0x0F::int)"
    by (rule AND_upper2') simp_all
  have c: "push_bit 8 (uint (fst r) AND 0x0F) < (2::int) ^ 12"
    using a by (simp add: push_bit_eq_mult)
  have d: "uint (snd r) < (2::int) ^ 12"
    using uint_lt2p [of "snd r"] by simp
  have "push_bit 8 (uint (fst r) AND 0x0F) OR uint (snd r) < (2::int) ^ 12"
    using c d by (intro OR_upper) (simp_all)
  moreover have "0 \<le> push_bit 8 (uint (fst r) AND 0x0F) OR uint (snd r)"
    by simp
  ultimately show ?thesis by (simp add: adc_value_def)
qed

lemma while_not_free: "fst (c s) \<Longrightarrow> while_not c s = Some (snd (c s))"
  by (subst while_not.simps) (cases "c s", simp)

lemma spin0: "\<not> spi0_locked s \<Longrightarrow> spin spi0_try_lock s = Some (Inr (), s\<lparr>spi0_locked := True\<rparr>)"
  by (simp add: spin_def while_not_free spi0_try_lock_def)

lemma adc_command_range: "0 \<le> adc_command ch \<and> adc_command ch < 256"
proof -
  have a: "ch AND 0x07 \<le> (0x07::int)"
    by (rule AND_upper2') simp_all
  have b: "push_bit 4 (ch AND 0x07) < (2::int) ^ 8"
    using a by (simp add: push_bit_eq_mult)
  have "(0x80::int) OR push_bit 4 (ch AND 0x07) < 2 ^ 8"
    using b by (intro OR_upper) simp_all
  moreover have "0 \<le> (0x80::int) OR push_bit 4 (ch AND 0x07)"
    by simp
  ultimately show ?thesis by (simp add: adc_command_def)
qed

lemma to_bytes_cmd: "to_bytes [adc_command ch, 0] = Inr [word_of_int (adc_command ch), 0]"
  using adc_command_range [of ch] by (simp add: to_bytes_def)

lemma read_adc_channel_eq:
  "\<not> spi0_locked s \<Longrightarrow>
   read_adc_channel ev ch s =
     Some (Inr (adc_value (reply_in ev ch s)),
           s\<lparr>pins := (pins s)(ADC_CS := True), trace := trace s @ adc_read_events ch\<rparr>)"
  by (simp add: read_adc_channel_def bind_def pin_write_def sleep_def emit_def spin0 try_finally_def
      lift_def to_bytes_cmd spi0_write_readinto_def spi0_unlock_def ret_def adc_read_events_def reply_in_def)

lemma set_mux_channel_eq:
  "set_mux_channel ch s =
     Some (Inr (), s\<lparr>pins := (pins s)(MUX_CS := False, MUX_S0 := ch AND 0x01 \<noteq> 0,
                        MUX_S1 := drop_bit 1 ch AND 0x01 \<noteq> 0, MUX_S2 := drop_bit 2 ch AND 0x01 \<noteq> 0,
                        MUX_S3 := drop_bit 3 ch AND 0x01 \<noteq> 0),
                     trace := trace s @ mux_select_events ch\<rparr>)"
  by (simp add: set_mux_channel_def bind_def pin_write_def sleep_def emit_def ret_def mux_select_events_def)

lemma for_loop_rule:
  assumes "I s"
    and "\<And>i s. i \<in> set xs \<Longrightarrow> I s \<Longrightarrow> \<exists>s'. body i s = Some (Inr (), s') \<and> I s' \<and> trace s' = trace s @ evs i"
  shows "\<exists>s'. for_loop xs body s = Some (Inr (), s') \<and> I s' \<and> trace s' = trace s @ concat (map evs xs)"
  using assms
proof (induction xs arbitrary: s)
  case Nil
  then show ?case by (simp add: ret_def)
next
  case (Cons i xs)
  from Cons.prems obtain s1 where s1: "body i s = Some (Inr (), s1)" "I s1" "trace s1 = trace s @ evs i"
    by (meson list.set_intros(1))
  from Cons.IH [OF s1(2)] Cons.prems(2) obtain s2 where
    s2: "for_loop xs body s1 = Some (Inr (), s2)" "I s2" "trace s2 = trace s1 @ concat (map evs xs)"
    by (meson list.set_intros(2))
  show ?case using s1 s2 by (simp add: bind_def)
qed

lemma direct_step:
  assumes "sampler_inv a0 s" "i \<in> set [1..<8]"
  shows "\<exists>s'. bind (read_adc_channel ev (int i)) (\<lambda>v. set_adc_data i v) s = Some (Inr (), s') \<and>
     sampler_inv a0 s' \<and> trace s' = trace s @ adc_read_events (int i)"
  using assms
  by (simp add: sampler_inv_def bind_def read_adc_channel_eq set_adc_data_def list_setitem_def)

lemma muxed_step:
  assumes "sampler_inv a0 s" "i \<in> set [0..<16]"
  shows "\<exists>s'. block [set_mux_channel (int i), sleep 50,
                 bind (read_adc_channel ev 0) (\<lambda>v. set_adc_data (i + 7) v)] s = Some (Inr (), s') \<and>
     sampler_inv a0 s' \<and> trace s' = trace s @ (mux_select_events (int i) @ [Sleep 50] @ adc_read_events 0)"
  using assms
  by (simp add: sampler_inv_def bind_def set_mux_channel_eq sleep_def emit_def read_adc_channel_eq
      set_adc_data_def list_setitem_def ret_def)

lemma sample_all_channels_run:
  assumes "\<not> spi0_locked s" and "length (adc_data s) = 23"
  shows "\<exists>s'. sample_all_channels ev s = Some (Inr (), s') \<and> \<not> spi0_locked s' \<and>
     length (adc_data s') = 23 \<and> adc_data s' ! 0 = adc_data s ! 0 \<and>
     trace s' = trace s @ sample_events"
proof -
  let ?I = "sampler_inv (adc_data s ! 0)"
  let ?direct = "\<lambda>i. bind (read_adc_channel ev (int i)) (\<lambda>v. set_adc_data i v)"
  let ?muxed = "\<lambda>i. block [set_mux_channel (int i), sleep 50,
                 bind (read_adc_channel ev 0) (\<lambda>v. set_adc_data (i + 7) v)]"
  have I0: "?I s" using assms by (simp add: sampler_inv_def)
  have "\<exists>s1. for_loop [1..<8] ?direct s = Some (Inr (), s1) \<and> ?I s1 \<and>
      trace s1 = trace s @ concat (map (\<lambda>i. adc_read_events (int i)) [1..<8])"
    by (rule for_loop_rule [where I = "?I"]) (use I0 direct_step in blast)+
  then obtain s1 where s1: "for_loop [1..<8] ?direct s = Some (Inr (), s1)" "?I s1"
      "trace s1 = trace s @ concat (map (\<lambda>i. adc_read_events (int i)) [1..<8])"
    by blast
  have "\<exists>s2. for_loop [0..<16] ?muxed s1 = Some (Inr (), s2) \<and> ?I s2 \<and>
      trace s2 = trace s1 @ concat (map (\<lambda>i. mux_select_events (int i) @ [Sleep 50] @ adc_read_events 0) [0..<16])"
    by (rule for_loop_rule [where I = "?I"]) (use s1(2) muxed_step in blast)+
  then obtain s2 where s2: "for_loop [0..<16] ?muxed s1 = Some (Inr (), s2)" "?I s2"
      "trace s2 = trace s1 @ concat (map (\<lambda>i. mux_select_events (int i) @ [Sleep 50] @ adc_read_events 0) [0..<16])"
    by blast
  show ?thesis
    using s1 s2 by (simp add: sample_all_channels_def bind_def ret_def sampler_inv_def sample_events_def)
qed

lemma select_bit: "(drop_bit k (int m) AND 0x01 \<noteq> 0) = bit m k"
proof -
  have "(drop_bit k (int m) AND 0x01 \<noteq> 0) = bit (int m) k"
    by (simp add: bit_iff_odd_drop_bit and_one_eq mod_2_eq_odd)
  then show ?thesis by (simp add: bit_of_nat_iff_bit)
qed

lemma select_bit0: "(int m AND 0x01 \<noteq> 0) = bit m 0"
  using select_bit [of 0 m] by simp

lemma direct_command: "i < 8 \<Longrightarrow> adc_command (int i) = 0x80 OR push_bit 4 (int i)"
proof -
  assume "i < 8"
  have "int i AND 0x07 = take_bit 3 (int i)"
    by (simp add: take_bit_eq_mask mask_eq_exp_minus_1)
  also have "\<dots> = int i"
    using \<open>i < 8\<close> by (simp add: take_bit_int_eq_self)
  finally show ?thesis by (simp add: adc_command_def)
qed

lemma upt_1_8: "[Suc 0..<8] = [1, 2, 3, 4, 5, 6, 7]"
  by (simp add: upt_rec)

lemma upt_0_16: "[0..<16] = [0, 1, 2, 3, 4, 5, 6, 7, 8, 9, 10, 11, 12, 13, 14, 15]"
  by (simp add: upt_rec)

subsection \<open>Decoding of a reading\<close>

text \<open>
  C7. Whatever two bytes \<open>b0\<close>, \<open>b1\<close> the ADC answers, \<open>read_adc_channel\<close> returns, and
  the value it returns is \<open>((b0 & 0x0F) << 8) | b1\<close>, which lies between 0 and 4095.
\<close>

theorem read_adc_channel_decodes:
  assumes "\<not> spi0_locked s"
  shows "\<exists>s'. read_adc_channel (ev\<lparr>adc_reply := \<lambda>p tr out. (b0, b1)\<rparr>) channel s =
           Some (Inr (push_bit 8 (uint b0 AND 0x0F) OR uint b1), s') \<and>
         0 \<le> push_bit 8 (uint b0 AND 0x0F) OR uint b1 \<and>
         push_bit 8 (uint b0 AND 0x0F) OR uint b1 \<le> 4095"
  using assms adc_value_range [of "(b0, b1)"]
  by (simp add: read_adc_channel_eq reply_in_def adc_value_def)

text \<open>C7, at the idle object with the ADC answering \<open>0xAB, 0xCD\<close> on channel 3.\<close>

theorem read_adc_channel_decodes_witness:
  "\<not> spi0_locked idle \<and>
   (\<exists>s'. read_adc_channel (bench\<lparr>adc_reply := \<lambda>p tr out. (0xAB, 0xCD)\<rparr>) 3 idle = Some (Inr 3021, s'))"
  using read_adc_channel_decodes [where s = idle and ev = bench and ?b0.0 = "0xAB" and ?b1.0 = "0xCD" and channel = 3]
  by (simp add: idle_def)

subsection \<open>The sampling cycle\<close>

text \<open>
  C1, as amended. From a state with the ADC bus free and a vector of 23 readings,
  \<open>sample_all_channels\<close> returns, and its ADC transfers and select-line writes are, in
  order: one transfer with command \<open>0x80 | (k << 4)\<close> for each ADC input \<open>k\<close> from 1 to
  7, then for each sub-channel \<open>m\<close> from 0 to 15 the four select lines set to the bits of
  \<open>m\<close>, least significant bit on the first line, followed by a transfer with command \<open>0x80\<close>.
\<close>

theorem sample_all_channels_commands:
  assumes "\<not> spi0_locked s" and "length (adc_data s) = 23"
  shows "\<exists>s'. sample_all_channels ev s = Some (Inr (), s') \<and>
     filter adc_or_select (drop (length (trace s)) (trace s')) =
       map (\<lambda>k. Spi0WriteReadinto [word_of_int (0x80 OR push_bit 4 (int k)), 0]) [1..<8] @
       concat (map (\<lambda>m. [PinWrite MUX_S0 (bit m 0), PinWrite MUX_S1 (bit m 1),
                          PinWrite MUX_S2 (bit m 2), PinWrite MUX_S3 (bit m 3),
                          Spi0WriteReadinto [0x80, 0]]) [0..<16])"
proof -
  obtain s' where s': "sample_all_channels ev s = Some (Inr (), s')" "trace s' = trace s @ sample_events"
    using sample_all_channels_run [OF assms] by blast
  have a: "filter adc_or_select (concat (map (\<lambda>i. adc_read_events (int i)) [1..<8])) =
      map (\<lambda>k. Spi0WriteReadinto [word_of_int (0x80 OR push_bit 4 (int k)), 0]) [1..<8]"
    unfolding filter_concat map_map comp_def
    by (simp add: adc_read_events_def direct_command cong: map_cong)
  have b: "filter adc_or_select (concat (map (\<lambda>i. mux_select_events (int i) @ [Sleep 50] @ adc_read_events 0) [0..<16])) =
       concat (map (\<lambda>m. [PinWrite MUX_S0 (bit m 0), PinWrite MUX_S1 (bit m 1),
                          PinWrite MUX_S2 (bit m 2), PinWrite MUX_S3 (bit m 3),
                          Spi0WriteReadinto [0x80, 0]]) [0..<16])"
    unfolding filter_concat map_map comp_def
    by (simp add: mux_select_events_def adc_read_events_def select_bit select_bit0 adc_command_def)
  show ?thesis using s' a b by (simp add: sample_events_def)
qed

text \<open>C1 as amended, at the idle object on the bench.\<close>

theorem sample_all_channels_commands_witness:
  "\<not> spi0_locked idle \<and> length (adc_data idle) = 23 \<and>
   (\<exists>s'. sample_all_channels bench idle = Some (Inr (), s') \<and>
     filter adc_or_select (trace s') =
       map (\<lambda>k. Spi0WriteReadinto [word_of_int (0x80 OR push_bit 4 (int k)), 0]) [1..<8] @
       concat (map (\<lambda>m. [PinWrite MUX_S0 (bit m 0), PinWrite MUX_S1 (bit m 1),
                          PinWrite MUX_S2 (bit m 2), PinWrite MUX_S3 (bit m 3),
                          Spi0WriteReadinto [0x80, 0]]) [0..<16]))"
  using sample_all_channels_commands [of idle bench]
  by (simp add: idle_def)

lemma adc_commands_sample_events:
  "adc_commands sample_events =
     [0x90, 0xA0, 0xB0, 0xC0, 0xD0, 0xE0, 0xF0, 0x80, 0x80, 0x80, 0x80, 0x80, 0x80, 0x80, 0x80,
      0x80, 0x80, 0x80, 0x80, 0x80, 0x80, 0x80, 0x80]"
  by (simp add: sample_events_def upt_1_8 upt_0_16 adc_read_events_def mux_select_events_def
      adc_command_def)

text \<open>
  C1 as stated fails. The claim gives the 23 logical channels, in order, the commands
  \<open>0x80, 0x90, ..., 0xE0\<close> and sixteen times \<open>0x80\<close>. The commands issued are
  \<open>0x90, ..., 0xF0\<close> and sixteen times \<open>0x80\<close>: the direct loop runs over 1 to 7, so no
  transfer is made for logical channel 0 and command \<open>0xF0\<close> is issued.
\<close>

theorem sample_all_channels_commands_counterexample:
  "map_option (\<lambda>(r, s'). adc_commands (trace s')) (sample_all_channels bench idle) =
     Some [0x90, 0xA0, 0xB0, 0xC0, 0xD0, 0xE0, 0xF0, 0x80, 0x80, 0x80, 0x80, 0x80, 0x80, 0x80,
           0x80, 0x80, 0x80, 0x80, 0x80, 0x80, 0x80, 0x80, 0x80] \<and>
   map_option (\<lambda>(r, s'). adc_commands (trace s')) (sample_all_channels bench idle) \<noteq>
     Some spec_commands"
proof -
  obtain s' where s': "sample_all_channels bench idle = Some (Inr (), s')"
      "trace s' = trace idle @ sample_events"
    using sample_all_channels_run [of idle bench] by (auto simp: idle_def)
  have a: "spec_commands ! 0 = 0x80"
    by (simp add: spec_commands_def upt_rec)
  have b: "adc_commands sample_events ! 0 = 0x90"
    by (simp add: adc_commands_sample_events)
  have "spec_commands \<noteq> adc_commands sample_events"
  proof
    assume "spec_commands = adc_commands sample_events"
    with a b have "(0x80 :: byte) = 0x90" by simp
    then show False by simp
  qed
  then show ?thesis
    using s' adc_commands_sample_events by (simp add: idle_def)
qed

text \<open>
  C2, evaluated on the bench. The claim asks for the readings 100 to 700 of inputs 1 to 7
  in entries 0 to 6. The call leaves entry 0 at its old value 0, puts the readings of
  inputs 1 to 6 in entries 1 to 6, and loses the reading 700 of input 7, which the first
  multiplexed reading overwrites in entry 7.
\<close>

theorem sample_all_channels_frame_on_bench:
  "map_option (\<lambda>(r, s'). adc_data s') (sample_all_channels bench idle) =
     Some [0, 100, 200, 300, 400, 500, 600, 1000, 1001, 1002, 1003, 1004, 1005, 1006, 1007,
           1008, 1009, 1010, 1011, 1012, 1013, 1014, 1015] \<and>
   spec_frame_on_bench =
     [100, 200, 300, 400, 500, 600, 700, 1000, 1001, 1002, 1003, 1004, 1005, 1006, 1007,
      1008, 1009, 1010, 1011, 1012, 1013, 1014, 1015]"
proof
  show "map_option (\<lambda>(r, s'). adc_data s') (sample_all_channels bench idle) =
     Some [0, 100, 200, 300, 400, 500, 600, 1000, 1001, 1002, 1003, 1004, 1005, 1006, 1007,
           1008, 1009, 1010, 1011, 1012, 1013, 1014, 1015]"
    by (simp add: sample_all_channels_def upt_1_8 upt_0_16 bind_def read_adc_channel_eq
        set_adc_data_def list_setitem_def set_mux_channel_eq sleep_def emit_def ret_def idle_def
        mux_selected_def reply_in_def bench_def bench_reply_def adc_command_def adc_value_def)
      code_simp
  show "spec_frame_on_bench =
     [100, 200, 300, 400, 500, 600, 700, 1000, 1001, 1002, 1003, 1004, 1005, 1006, 1007,
      1008, 1009, 1010, 1011, 1012, 1013, 1014, 1015]"
    by (simp add: spec_frame_on_bench_def upt_1_8 upt_0_16)
qed

text \<open>
  C10. From a state with the ADC bus free and a vector of 23 readings,
  \<open>sample_all_channels\<close> returns with entry 0 of the vector as it was before the call.
\<close>

theorem sample_all_channels_keeps_entry_0:
  assumes "\<not> spi0_locked s" and "length (adc_data s) = 23"
  shows "\<exists>s'. sample_all_channels ev s = Some (Inr (), s') \<and> adc_data s' ! 0 = adc_data s ! 0"
  using sample_all_channels_run [OF assms] by blast

text \<open>C10, at the idle object on the bench: entry 0 is still the 0 of construction.\<close>

theorem sample_all_channels_keeps_entry_0_witness:
  "\<not> spi0_locked idle \<and> length (adc_data idle) = 23 \<and>
   (\<exists>s'. sample_all_channels bench idle = Some (Inr (), s') \<and> adc_data s' ! 0 = 0)"
  using sample_all_channels_keeps_entry_0 [of idle bench]
  by (simp add: idle_def)

subsection \<open>Helper facts on the CAN driver\<close>

lemma spin1: "\<not> spi1_locked s \<Longrightarrow> spin spi1_try_lock s = Some (Inr (), s\<lparr>spi1_locked := True\<rparr>)"
  by (simp add: spin_def while_not_free spi1_try_lock_def)

lemma header_low_range: "0 \<le> push_bit 5 (ident AND 0x07) \<and> push_bit 5 (ident AND 0x07) < (256::int)"
proof -
  have "ident AND 0x07 \<le> (0x07::int)"
    by (rule AND_upper2') simp_all
  then show ?thesis by (simp add: push_bit_eq_mult)
qed

lemma header_high_range: "(0 \<le> drop_bit 3 ident \<and> drop_bit 3 ident < (256::int)) = (0 \<le> ident \<and> ident \<le> 0x7FF)"
  by (auto simp: drop_bit_eq_div)

lemma to_bytes_header:
  "to_bytes [drop_bit 3 ident, push_bit 5 (ident AND 0x07), 0, 0, int (length data)] =
     (if frame_ok ident data
      then Inr (map word_of_int [drop_bit 3 ident, push_bit 5 (ident AND 0x07), 0, 0, int (length data)])
      else Inl ValueError)"
  using header_low_range [of ident] header_high_range [of ident]
  by (auto simp: to_bytes_def frame_ok_def)

lemma send_can_message_ok:
  assumes "\<not> spi1_locked s" and "frame_ok ident data"
  shows "send_can_message ident data s =
     Some (Inr (), s\<lparr>pins := (pins s)(CAN_CS := True), spi1_locked := False,
                     trace := trace s @ can_frame_events ident data\<rparr>)"
  using assms
  by (simp add: send_can_message_def bind_def spin1 try_finally_def pin_write_def spi1_write_def
      emit_def lift_def to_bytes_header spi1_unlock_def ret_def can_frame_events_def
      del: push_bit_and)

lemma send_can_message_bad:
  assumes "\<not> spi1_locked s" and "\<not> frame_ok ident data"
  shows "send_can_message ident data s =
     Some (Inl ValueError, s\<lparr>pins := (pins s)(CAN_CS := False), spi1_locked := False,
        trace := trace s @ [PinWrite CAN_CS False, Spi1Write [0x40, 0x08], PinWrite CAN_CS True,
                            PinWrite CAN_CS False]\<rparr>)"
  using assms
  by (simp add: send_can_message_def bind_def spin1 try_finally_def pin_write_def spi1_write_def
      emit_def lift_def to_bytes_header spi1_unlock_def ret_def del: push_bit_and)

lemma spi1_writes_append: "spi1_writes (xs @ ys) = spi1_writes xs @ spi1_writes ys"
  by (induction xs rule: spi1_writes.induct) simp_all

lemma pack_loop_eq:
  "\<forall>v \<in> set vs. 0 \<le> v \<and> v \<le> 65535 \<Longrightarrow> pack_loop vs acc = Inr (acc @ concat (map be16 vs))"
  by (induction vs arbitrary: acc) (simp_all add: struct_pack_H_def be16_def)

lemma length_payload: "length (concat (map be16 vs)) = 2 * length vs"
  by (induction vs) (simp_all add: be16_def)

lemma slice_chunk:
  assumes "i \<le> length xs"
  shows "slice xs i (i + min 8 (length xs - i)) = take 8 (drop i xs)"
proof -
  have "slice xs i (i + min 8 (length xs - i)) = take (min 8 (length (drop i xs))) (drop i xs)"
    by (simp add: slice_def drop_take)
  also have "\<dots> = take 8 (drop i xs)"
    by (simp add: min_def)
  finally show ?thesis .
qed

lemma range_step_46: "range_step 0 46 8 = map (\<lambda>k. 8 * k) [0..<6]"
  by (simp add: range_step_def mult.commute)

lemma chunk_step:
  assumes "\<not> spi1_locked s" and "frame_ok ident data"
  shows "\<exists>s'. block [send_can_message ident data, sleep 5000] s = Some (Inr (), s') \<and>
     \<not> spi1_locked s' \<and> trace s' = trace s @ (can_frame_events ident data @ [Sleep 5000])"
  using assms by (simp add: bind_def send_can_message_ok sleep_def emit_def ret_def)

subsection \<open>Transmission of one frame\<close>

text \<open>
  C3, as amended. With the CAN bus free, \<open>send_can_message\<close> returns; it raises
  \<open>ValueError\<close> exactly when the identifier is outside \<open>0..0x7FF\<close> or the payload is
  longer than 255 bytes, and by then it has written the load-TX-buffer burst \<open>0x40, 0x08\<close>
  to the controller. A payload of 9 to 255 bytes with an identifier in range raises nothing.
\<close>

theorem send_can_message_rejection:
  assumes "\<not> spi1_locked s"
  shows "\<exists>s'. send_can_message ident data s =
           Some (if 0 \<le> ident \<and> ident \<le> 0x7FF \<and> length data \<le> 255 then Inr () else Inl ValueError, s') \<and>
         (\<not> (0 \<le> ident \<and> ident \<le> 0x7FF \<and> length data \<le> 255) \<longrightarrow>
            spi1_writes (drop (length (trace s)) (trace s')) = [[0x40, 0x08]])"
proof (cases "frame_ok ident data")
  case True
  then show ?thesis
    using send_can_message_ok [OF assms True] by (simp add: frame_ok_def)
next
  case False
  then show ?thesis
    using send_can_message_bad [OF assms False] by (simp add: frame_ok_def)
qed

text \<open>C3 as amended, at identifier \<open>0x800\<close> with no payload and at identifier \<open>0x100\<close> with
  nine bytes.\<close>

theorem send_can_message_rejection_witness:
  "\<not> spi1_locked idle \<and>
   (\<exists>s'. send_can_message 0x800 [] idle = Some (Inl ValueError, s') \<and>
          spi1_writes (trace s') = [[0x40, 0x08]]) \<and>
   (\<exists>s'. send_can_message 0x100 [1, 2, 3, 4, 5, 6, 7, 8, 9] idle = Some (Inr (), s'))"
  using send_can_message_rejection [of idle "0x800" "[]"]
    send_can_message_rejection [of idle "0x100" "[1, 2, 3, 4, 5, 6, 7, 8, 9]"]
  by (simp add: idle_def)

text \<open>
  C3 as stated fails. A payload of nine bytes is not rejected: all three bursts are written,
  with a data length code of 9. An identifier of \<open>0x800\<close> is rejected, but only after
  the first burst has been written.
\<close>

theorem send_can_message_counterexample:
  "map_option (\<lambda>(r, s'). (r, spi1_writes (trace s')))
     (send_can_message 0x100 [1, 2, 3, 4, 5, 6, 7, 8, 9] idle) =
     Some (Inr (), [[0x40, 0x08], [0x20, 0x00, 0, 0, 9, 1, 2, 3, 4, 5, 6, 7, 8, 9], [0x81]]) \<and>
   map_option (\<lambda>(r, s'). (r, spi1_writes (trace s'))) (send_can_message 0x800 [] idle) =
     Some (Inl ValueError, [[0x40, 0x08]])"
  by (simp add: send_can_message_ok send_can_message_bad frame_ok_def idle_def can_frame_events_def)

text \<open>
  C6. With the CAN bus free, an identifier in \<open>0..0x7FF\<close> and a payload of at most 255
  bytes, \<open>send_can_message\<close> returns and the second of its three chip-select bursts is
  \<open>id >> 3\<close>, \<open>(id & 0x07) << 5\<close>, 0, 0, \<open>len(data)\<close>, followed by the payload.
\<close>

theorem send_can_message_bursts:
  assumes "\<not> spi1_locked s" and "0 \<le> ident" and "ident \<le> 0x7FF" and "length data \<le> 255"
  shows "\<exists>s'. send_can_message ident data s = Some (Inr (), s') \<and>
     drop (length (trace s)) (trace s') =
       [PinWrite CAN_CS False, Spi1Write [0x40, 0x08], PinWrite CAN_CS True,
        PinWrite CAN_CS False,
        Spi1Write (map word_of_int [drop_bit 3 ident, push_bit 5 (ident AND 0x07), 0, 0, int (length data)] @ data),
        PinWrite CAN_CS True,
        PinWrite CAN_CS False, Spi1Write [0x81], PinWrite CAN_CS True]"
  using assms by (simp add: send_can_message_ok frame_ok_def can_frame_events_def)

text \<open>C6, at identifier \<open>0x105\<close> with payload \<open>0xAA, 0xBB\<close>.\<close>

theorem send_can_message_bursts_witness:
  "\<not> spi1_locked idle \<and> (0::int) \<le> 0x105 \<and> (0x105::int) \<le> 0x7FF \<and> length [0xAA, 0xBB :: byte] \<le> 255 \<and>
   (\<exists>s'. send_can_message 0x105 [0xAA, 0xBB] idle = Some (Inr (), s') \<and>
     trace s' =
       [PinWrite CAN_CS False, Spi1Write [0x40, 0x08], PinWrite CAN_CS True,
        PinWrite CAN_CS False, Spi1Write [0x20, 0xA0, 0, 0, 2, 0xAA, 0xBB], PinWrite CAN_CS True,
        PinWrite CAN_CS False, Spi1Write [0x81], PinWrite CAN_CS True])"
  using send_can_message_bursts [of idle "0x105" "[0xAA, 0xBB]"]
  by (simp add: idle_def)

subsection \<open>Bring-up of the controller\<close>

text \<open>
  C4, evaluated. After the reset burst \<open>0xC0\<close>, \<open>init_can_controller\<close> writes four
  bursts of three bytes. Each carries one value, so four registers are written, not five:
  the burst that the source comments as writing CNF3 and CNF2 carries a single value.
\<close>

theorem init_can_controller_writes:
  "map_option (\<lambda>(r, s'). (r, spi1_writes (trace s'))) (init_can_controller idle) =
     Some (Inr (), [[0xC0], [0x02, 0x0F, 0x80], [0x02, 0x2A, 0x04], [0x02, 0x28, 0x00], [0x02, 0x0F, 0x00]]) \<and>
   concat (map register_writes [[0x02, 0x0F, 0x80], [0x02, 0x2A, 0x04], [0x02, 0x28, 0x00], [0x02, 0x0F, 0x00]]) =
     [(0x0F, 0x80), (0x2A, 0x04), (0x28, 0x00), (0x0F, 0x00)]"
  by (simp add: init_can_controller_def bind_def spin1 try_finally_def pin_write_def spi1_write_def
      emit_def sleep_def spi1_unlock_def ret_def idle_def)

subsection \<open>Transmission of the reading vector\<close>

text \<open>
  C5. With the CAN bus free and 23 readings that fit 16 bits, \<open>send_adc_data_via_can\<close>
  returns. The payload, every reading as two bytes with the high byte first, has 46 bytes;
  its consecutive chunks have 8, 8, 8, 8, 8 and 6 bytes; the events of the call are those of
  sending chunk \<open>k\<close> with identifier \<open>0x100 + k\<close>, each followed by the 5 ms wait, for
  \<open>k\<close> from 0 to 5 in order.
\<close>

theorem send_adc_data_via_can_frames:
  assumes "\<not> spi1_locked s" and "length (adc_data s) = 23"
    and "\<forall>v \<in> set (adc_data s). 0 \<le> v \<and> v \<le> 65535"
  shows "\<exists>s' payload.
     payload = concat (map (\<lambda>v. [word_of_int (drop_bit 8 v), word_of_int (v AND 0xFF)]) (adc_data s)) \<and>
     length payload = 46 \<and>
     map (\<lambda>k. length (take 8 (drop (8 * k) payload))) [0..<6] = [8, 8, 8, 8, 8, 6] \<and>
     send_adc_data_via_can s = Some (Inr (), s') \<and>
     drop (length (trace s)) (trace s') =
       concat (map (\<lambda>k. can_frame_events (0x100 + int k) (take 8 (drop (8 * k) payload)) @ [Sleep 5000])
                 [0..<6])"
proof -
  let ?payload = "concat (map be16 (adc_data s))"
  let ?body = "\<lambda>i. block [send_can_message (0x100 + int (i div 8))
                   (slice ?payload i (i + min 8 (length ?payload - i))), sleep 5000]"
  let ?evs = "\<lambda>i. can_frame_events (0x100 + int (i div 8)) (take 8 (drop i ?payload)) @ [Sleep 5000]"
  have len: "length ?payload = 46"
    using assms(2) by (simp add: length_payload)
  have pack: "pack_loop (adc_data s) [] = Inr ?payload"
    using pack_loop_eq [OF assms(3), of "[]"] by simp
  have step: "\<exists>s'. ?body i t = Some (Inr (), s') \<and> \<not> spi1_locked s' \<and> trace s' = trace t @ ?evs i"
    if "i \<in> set (range_step 0 46 8)" and "\<not> spi1_locked t" for i t
  proof -
    from that(1) have i: "i \<le> 40" by (auto simp: range_step_46)
    have d: "i div 8 \<le> 40"
      using i div_le_dividend [of i 8] by linarith
    have ok: "frame_ok (0x100 + int (i div 8)) (take 8 (drop i ?payload))"
      using d by (auto simp: frame_ok_def)
    have "slice ?payload i (i + min 8 (length ?payload - i)) = take 8 (drop i ?payload)"
      using i len by (intro slice_chunk) simp
    then show ?thesis
      using chunk_step [OF that(2) ok] by simp
  qed
  have "\<exists>s'. for_loop (range_step 0 46 8) ?body s = Some (Inr (), s') \<and> \<not> spi1_locked s' \<and>
      trace s' = trace s @ concat (map ?evs (range_step 0 46 8))"
    by (rule for_loop_rule [where I = "\<lambda>s. \<not> spi1_locked s"]) (use assms(1) step in blast)+
  then obtain s' where s': "for_loop (range_step 0 46 8) ?body s = Some (Inr (), s')"
      "trace s' = trace s @ concat (map ?evs (range_step 0 46 8))"
    by blast
  have run: "send_adc_data_via_can s = Some (Inr (), s')"
    using s'(1) pack len by (simp add: send_adc_data_via_can_def bind_def get_adc_data_def lift_def)
  have evs: "concat (map ?evs (range_step 0 46 8)) =
      concat (map (\<lambda>k. can_frame_events (0x100 + int k) (take 8 (drop (8 * k) ?payload)) @ [Sleep 5000]) [0..<6])"
    by (simp add: range_step_46 comp_def)
  have lens: "map (\<lambda>k. length (take 8 (drop (8 * k) ?payload))) [0..<6] = [8, 8, 8, 8, 8, 6]"
    using len by (simp add: upt_rec)
  show ?thesis
    using len lens run s'(2) evs unfolding be16_def by auto
qed

text \<open>C5, at the reading vector of the bench.\<close>

theorem send_adc_data_via_can_frames_witness:
  "\<not> spi1_locked idle \<and>
   length [0, 100, 200, 300, 400, 500, 600, 1000, 1001, 1002, 1003, 1004, 1005, 1006, 1007,
           1008, 1009, 1010, 1011, 1012, 1013, 1014, 1015 :: int] = 23 \<and>
   (\<exists>s'. send_adc_data_via_can
           (idle\<lparr>adc_data := [0, 100, 200, 300, 400, 500, 600, 1000, 1001, 1002, 1003, 1004, 1005,
              1006, 1007, 1008, 1009, 1010, 1011, 1012, 1013, 1014, 1015]\<rparr>) = Some (Inr (), s') \<and>
      spi1_writes (trace s') =
        [[64, 8],
         [32, 0, 0, 0, 8, 0, 0, 0, 100, 0, 200, 1, 44],
         [129],
         [64, 8],
         [32, 32, 0, 0, 8, 1, 144, 1, 244, 2, 88, 3, 232],
         [129],
         [64, 8],
         [32, 64, 0, 0, 8, 3, 233, 3, 234, 3, 235, 3, 236],
         [129],
         [64, 8],
         [32, 96, 0, 0, 8, 3, 237, 3, 238, 3, 239, 3, 240],
         [129],
         [64, 8],
         [32, 128, 0, 0, 8, 3, 241, 3, 242, 3, 243, 3, 244],
         [129],
         [64, 8],
         [32, 160, 0, 0, 6, 3, 245, 3, 246, 3, 247],
         [129]])"
  using send_adc_data_via_can_frames [of "idle\<lparr>adc_data := [0, 100, 200, 300, 400, 500, 600, 1000,
    1001, 1002, 1003, 1004, 1005, 1006, 1007, 1008, 1009, 1010, 1011, 1012, 1013, 1014, 1015]\<rparr>"]
  by (auto simp: idle_def upt_rec can_frame_events_def)

subsection \<open>Helper facts on logging\<close>

lemma header_text:
  "''timestamp'' @ concat (map header_field [0..<23]) @ [CHR 0x0A] = csv_header"
  by (simp add: csv_header_def upt_rec str_nat.simps header_field_def)

lemma file_write_loop:
  "files s path = Some content \<Longrightarrow>
   for_loop xs (\<lambda>x. file_write path (f x)) s =
     Some (Inr (), s\<lparr>files := (files s)(path \<mapsto> content @ concat (map f xs))\<rparr>)"
proof (induction xs arbitrary: s content)
  case Nil
  then show ?case by (simp add: ret_def map_upd_triv)
next
  case (Cons x xs)
  let ?s1 = "s\<lparr>files := (files s)(path \<mapsto> content @ f x)\<rparr>"
  have a: "file_write path (f x) s = Some (Inr (), ?s1)"
    using Cons.prems by (simp add: file_write_def)
  have "for_loop xs (\<lambda>x. file_write path (f x)) ?s1 =
      Some (Inr (), ?s1\<lparr>files := (files ?s1)(path \<mapsto> (content @ f x) @ concat (map f xs))\<rparr>)"
    by (rule Cons.IH) simp
  then have b: "for_loop xs (\<lambda>x. file_write path (f x)) ?s1 =
      Some (Inr (), s\<lparr>files := (files s)(path \<mapsto> content @ concat (map f (x # xs)))\<rparr>)"
    by simp
  show ?case by (simp only: for_loop.simps bind_def a b option.case prod.case sum.case)
qed

lemma write_log_writable:
  assumes "writable ev"
  shows "write_log ev s =
     Some (Inr (), s\<lparr>files := (files s)(log_path \<mapsto>
        (case files s log_path of None \<Rightarrow> csv_header | Some old \<Rightarrow> old) @ csv_row ev (adc_data s))\<rparr>)"
proof (cases "files s log_path")
  case None
  have hdr: "for_loop [0..<23] (\<lambda>i. file_write log_path (header_field i)) t =
      Some (Inr (), t\<lparr>files := (files t)(log_path \<mapsto> c @ concat (map header_field [0..<23]))\<rparr>)"
    if "files t log_path = Some c" for t c
    using that by (rule file_write_loop)
  have row: "for_loop vs (\<lambda>v. file_write log_path (value_field v)) t =
      Some (Inr (), t\<lparr>files := (files t)(log_path \<mapsto> c @ concat (map value_field vs))\<rparr>)"
    if "files t log_path = Some c" for t c vs
    using that by (rule file_write_loop)
  show ?thesis
    using None assms header_text
    by (simp add: write_log_def bind_def try_except_def os_stat_def is_OSError_def ret_def open_w_def
        open_a_def file_write_def hdr row get_adc_data_def csv_row_def)
next
  case (Some old)
  have row: "for_loop vs (\<lambda>v. file_write log_path (value_field v)) t =
      Some (Inr (), t\<lparr>files := (files t)(log_path \<mapsto> c @ concat (map value_field vs))\<rparr>)"
    if "files t log_path = Some c" for t c vs
    using that by (rule file_write_loop)
  show ?thesis
    using Some assms
    by (simp add: write_log_def bind_def try_except_def os_stat_def is_OSError_def ret_def
        open_a_def file_write_def row get_adc_data_def csv_row_def)
qed

lemma write_log_not_writable:
  assumes "\<not> writable ev"
  shows "write_log ev s = Some (Inl OSError, s)"
  using assms
  by (cases "files s log_path")
    (simp_all add: write_log_def bind_def try_except_def os_stat_def is_OSError_def ret_def open_w_def
        open_a_def)

lemma check_volume_eq:
  "check_volume ev s =
     (if listdir_ok ev then Some (Inr True, s\<lparr>trace := trace s @ [Listdir]\<rparr>)
      else if mount_ok ev then
        Some (Inr True, s\<lparr>trace := trace s @ [Listdir, Print ''SD card directory issue - remounting'', Mount]\<rparr>)
      else
        Some (Inr False, s\<lparr>trace := trace s @ [Listdir, Print ''SD card directory issue - remounting'', Mount,
           Print ''Remount failed: '']\<rparr>))"
  by (simp add: check_volume_def try_except_def bind_def os_listdir_def storage_mount_def emit_def
      ret_def raise_def is_OSError_def any_exception_def)

subsection \<open>The log file\<close>

text \<open>
  C8. When the volume is listed or remounted and can be written, \<open>log_data_to_sd\<close>
  returns without raising, and the log file then holds: the header row
  \<open>timestamp,adc0,...,adc22\<close> if the file did not exist, its old content if it did;
  followed by one record, the text of the monotonic time stamp and then, for each of the 23
  readings in channel order, a comma and the reading, closed by a newline.
\<close>

theorem log_data_to_sd_record:
  assumes "listdir_ok ev \<or> mount_ok ev" and "writable ev" and "length (adc_data s) = 23"
  shows "\<exists>s'. log_data_to_sd ev s = Some (Inr (), s') \<and>
     files s' = (files s)(log_path \<mapsto>
        (case files s log_path of None \<Rightarrow> csv_header | Some old \<Rightarrow> old) @
        monotonic_text ev @ concat (map (\<lambda>v. '','' @ str_int v) (adc_data s)) @ [CHR 0x0A])"
proof -
  have "(\<lambda>v. '','' @ str_int v) = value_field"
    by (simp add: value_field_def fun_eq_iff)
  then show ?thesis
    using assms
    by (auto simp: log_data_to_sd_def try_except_def bind_def check_volume_eq write_log_writable
        csv_row_def)
qed

text \<open>C8, on the bench with the bench readings: a missing file, and an existing file.\<close>

theorem log_data_to_sd_record_witness:
  "(listdir_ok bench \<or> mount_ok bench) \<and> writable bench \<and>
   length ([0, 100, 200, 300, 400, 500, 600, 1000, 1001, 1002, 1003, 1004, 1005,
      1006, 1007, 1008, 1009, 1010, 1011, 1012, 1013, 1014, 1015] :: int list) = 23 \<and>
   (\<exists>s'. log_data_to_sd bench (idle\<lparr>adc_data := [0, 100, 200, 300, 400, 500, 600, 1000, 1001, 1002, 1003, 1004, 1005,
              1006, 1007, 1008, 1009, 1010, 1011, 1012, 1013, 1014, 1015]\<rparr>) = Some (Inr (), s') \<and>
      files s' log_path = Some (csv_header @ ''12.5,0,100,200,300,400,500,600,1000,1001,1002,1003,1004,1005,1006,1007,1008,1009,1010,1011,1012,1013,1014,1015'' @ [CHR 0x0A])) \<and>
   (\<exists>s'. log_data_to_sd bench (idle\<lparr>adc_data := [0, 100, 200, 300, 400, 500, 600, 1000, 1001, 1002, 1003, 1004, 1005,
              1006, 1007, 1008, 1009, 1010, 1011, 1012, 1013, 1014, 1015], files := [log_path \<mapsto> ''old'']\<rparr>) = Some (Inr (), s') \<and>
      files s' log_path = Some (''old12.5,0,100,200,300,400,500,600,1000,1001,1002,1003,1004,1005,1006,1007,1008,1009,1010,1011,1012,1013,1014,1015'' @ [CHR 0x0A]))"
  using log_data_to_sd_record [of bench "idle\<lparr>adc_data := [0, 100, 200, 300, 400, 500, 600, 1000, 1001, 1002, 1003, 1004, 1005,
              1006, 1007, 1008, 1009, 1010, 1011, 1012, 1013, 1014, 1015]\<rparr>"]
    log_data_to_sd_record [of bench "idle\<lparr>adc_data := [0, 100, 200, 300, 400, 500, 600, 1000, 1001, 1002, 1003, 1004, 1005,
              1006, 1007, 1008, 1009, 1010, 1011, 1012, 1013, 1014, 1015], files := [log_path \<mapsto> ''old'']\<rparr>"]
  by (auto simp: bench_def idle_def str_int_def str_nat.simps)

text \<open>
  C9. When the directory listing fails, \<open>log_data_to_sd\<close> returns without raising after
  exactly one mount attempt. If the mount succeeds and the volume can be written, the log
  file then holds the header row or its old content, followed by the record of this cycle,
  as it does when the listing succeeds; if the mount fails the files are as they were before
  the call.
\<close>

theorem log_data_to_sd_remount:
  assumes "\<not> listdir_ok ev"
  shows "\<exists>s'. log_data_to_sd ev s = Some (Inr (), s') \<and>
     length (filter (\<lambda>e. e = Mount) (drop (length (trace s)) (trace s'))) = 1 \<and>
     (mount_ok ev \<longrightarrow>
        (\<exists>t. log_data_to_sd (ev\<lparr>listdir_ok := True\<rparr>) s = Some (Inr (), t) \<and> files s' = files t)) \<and>
     (mount_ok ev \<and> writable ev \<longrightarrow>
        files s' = (files s)(log_path \<mapsto>
          (case files s log_path of None \<Rightarrow> csv_header | Some old \<Rightarrow> old) @
          monotonic_text ev @ concat (map (\<lambda>v. '','' @ str_int v) (adc_data s)) @ [CHR 0x0A])) \<and>
     (\<not> mount_ok ev \<longrightarrow> files s' = files s)"
proof (cases "writable ev")
  case True
  have "(\<lambda>v. '','' @ str_int v) = value_field"
    by (simp add: value_field_def fun_eq_iff)
  with True show ?thesis
    using assms
    by (auto simp: log_data_to_sd_def try_except_def bind_def check_volume_eq write_log_writable
        csv_row_def ret_def)
next
  case False
  then show ?thesis
    using assms
    by (auto simp: log_data_to_sd_def try_except_def bind_def check_volume_eq write_log_not_writable
        ret_def any_exception_def emit_def)
qed

text \<open>C9, on the bench with a failing listing and the bench readings, the remount succeeding
  and failing.\<close>

theorem log_data_to_sd_remount_witness:
  "\<not> listdir_ok (bench\<lparr>listdir_ok := False\<rparr>) \<and>
   (\<exists>s'. log_data_to_sd (bench\<lparr>listdir_ok := False\<rparr>)
           (idle\<lparr>adc_data := [0, 100, 200, 300, 400, 500, 600, 1000, 1001, 1002, 1003, 1004, 1005,
              1006, 1007, 1008, 1009, 1010, 1011, 1012, 1013, 1014, 1015]\<rparr>) = Some (Inr (), s') \<and>
      length (filter (\<lambda>e. e = Mount) (trace s')) = 1 \<and>
      files s' log_path = Some (csv_header @ ''12.5,0,100,200,300,400,500,600,1000,1001,1002,1003,1004,1005,1006,1007,1008,1009,1010,1011,1012,1013,1014,1015'' @ [CHR 0x0A]) \<and>
      (\<exists>t. log_data_to_sd bench (idle\<lparr>adc_data := [0, 100, 200, 300, 400, 500, 600, 1000, 1001, 1002, 1003, 1004, 1005,
              1006, 1007, 1008, 1009, 1010, 1011, 1012, 1013, 1014, 1015]\<rparr>) = Some (Inr (), t) \<and> files s' = files t)) \<and>
   \<not> listdir_ok (bench\<lparr>listdir_ok := False, mount_ok := False\<rparr>) \<and>
   (\<exists>s'. log_data_to_sd (bench\<lparr>listdir_ok := False, mount_ok := False\<rparr>)
           (idle\<lparr>adc_data := [0, 100, 200, 300, 400, 500, 600, 1000, 1001, 1002, 1003, 1004, 1005,
              1006, 1007, 1008, 1009, 1010, 1011, 1012, 1013, 1014, 1015]\<rparr>) = Some (Inr (), s') \<and>
      length (filter (\<lambda>e. e = Mount) (trace s')) = 1 \<and> files s' = files idle)"
  using log_data_to_sd_remount [of "bench\<lparr>listdir_ok := False\<rparr>" "idle\<lparr>adc_data := [0, 100, 200, 300, 400, 500, 600, 1000, 1001, 1002, 1003, 1004, 1005,
              1006, 1007, 1008, 1009, 1010, 1011, 1012, 1013, 1014, 1015]\<rparr>"]
    log_data_to_sd_remount [of "bench\<lparr>listdir_ok := False, mount_ok := False\<rparr>" "idle\<lparr>adc_data := [0, 100, 200, 300, 400, 500, 600, 1000, 1001, 1002, 1003, 1004, 1005,
              1006, 1007, 1008, 1009, 1010, 1011, 1012, 1013, 1014, 1015]\<rparr>"]
  by (auto simp: bench_def idle_def str_int_def str_nat.simps)

subsection \<open>Acquisition of a bus\<close>

text \<open>The wait for a bus returns only when the bus is free: on a held lock the loop
  \<open>while not try_lock(): pass\<close> never ends, so the hypotheses above that the bus is free
  cannot be dropped.\<close>

lemma while_not_spi0_returns:
  assumes "while_not c s = Some y"
  shows "c = spi0_try_lock \<longrightarrow> \<not> spi0_locked s"
proof (rule while_not.raw_induct [where P = "\<lambda>c s y. c = spi0_try_lock \<longrightarrow> \<not> spi0_locked s", OF _ assms])
  fix f c s y
  assume ih: "\<And>c s y. f c s = Some y \<Longrightarrow> c = spi0_try_lock \<longrightarrow> \<not> spi0_locked s"
    and step: "(case c s of (ok, s') \<Rightarrow> if ok then Some s' else f c s') = Some y"
  show "c = spi0_try_lock \<longrightarrow> \<not> spi0_locked s"
  proof
    assume c: "c = spi0_try_lock"
    show "\<not> spi0_locked s"
    proof
      assume held: "spi0_locked s"
      with step c have "f spi0_try_lock s = Some y"
        by (simp add: spi0_try_lock_def)
      with ih held show False by blast
    qed
  qed
qed

lemma spin_spi0_held: "spi0_locked s \<Longrightarrow> spin spi0_try_lock s = None"
  using while_not_spi0_returns [of spi0_try_lock s]
  by (cases "while_not spi0_try_lock s") (auto simp: spin_def)

lemma while_not_spi1_returns:
  assumes "while_not c s = Some y"
  shows "c = spi1_try_lock \<longrightarrow> \<not> spi1_locked s"
proof (rule while_not.raw_induct [where P = "\<lambda>c s y. c = spi1_try_lock \<longrightarrow> \<not> spi1_locked s", OF _ assms])
  fix f c s y
  assume ih: "\<And>c s y. f c s = Some y \<Longrightarrow> c = spi1_try_lock \<longrightarrow> \<not> spi1_locked s"
    and step: "(case c s of (ok, s') \<Rightarrow> if ok then Some s' else f c s') = Some y"
  show "c = spi1_try_lock \<longrightarrow> \<not> spi1_locked s"
  proof
    assume c: "c = spi1_try_lock"
    show "\<not> spi1_locked s"
    proof
      assume held: "spi1_locked s"
      with step c have "f spi1_try_lock s = Some y"
        by (simp add: spi1_try_lock_def)
      with ih held show False by blast
    qed
  qed
qed

lemma spin_spi1_held: "spi1_locked s \<Longrightarrow> spin spi1_try_lock s = None"
  using while_not_spi1_returns [of spi1_try_lock s]
  by (cases "while_not spi1_try_lock s") (auto simp: spin_def)


subsection \<open>Construction\<close>

text \<open>From power-on, \<open>__init__\<close> returns and leaves the reading vector, the pins and the
  locks as the idle object has them, whether or not the card mounts.\<close>

lemma init_leaves_idle:
  "\<exists>s'. init ev power_on = Some (Inr (), s') \<and> adc_data s' = adc_data idle \<and> pins s' = pins idle \<and>
     spi0_locked s' = spi0_locked idle \<and> spi1_locked s' = spi1_locked idle"
proof -
  have "(\<lambda>p. p \<in> {SD_CS, ADC_CS, CAN_CS, MUX_CS}) =
      (\<lambda>_. False)(SD_CS := True, ADC_CS := True, MUX_CS := True, CAN_CS := True)"
    by (auto simp: fun_eq_iff)
  then show ?thesis
    by (cases "mount_ok ev")
      (simp_all add: init_def init_can_controller_def bind_def spin1 try_finally_def try_except_def
        pin_write_def spi1_write_def emit_def sleep_def spi1_unlock_def ret_def raise_def idle_def
        power_on_def storage_mount_def any_exception_def)
qed


end
